theory Spec2Isabelle
  imports Main "HOL-Library.Sublist"
begin

section \<open>Strings and arrays as the JavaScript source uses them\<close>

text \<open>
  A JavaScript string is modelled as a \<open>string\<close> (a list of 8-bit characters, so the
  code units of the model are those of Latin-1), an array as a list, a number that holds
  an index, a length or a time stamp as an \<open>int\<close>.
\<close>

definition NL :: char where
  "NL = CHR 0x0A"

text \<open>\<open>xs[i]\<close>: the element, or \<open>undefined\<close> (here \<open>None\<close>) outside the array.\<close>

definition nth_opt :: "'a list \<Rightarrow> int \<Rightarrow> 'a option" where
  "nth_opt xs i = (if 0 \<le> i \<and> i < int (length xs) then Some (xs ! nat i) else None)"

text \<open>\<open>xs.slice(b, e)\<close>: negative arguments count from the end, both are clamped.\<close>

definition slice :: "'a list \<Rightarrow> int \<Rightarrow> int \<Rightarrow> 'a list" where
  "slice xs b e =
     (let n = int (length xs);
          k = (if b < 0 then max (n + b) 0 else min b n);
          f = (if e < 0 then max (n + e) 0 else min e n)
      in drop (nat k) (take (nat f) xs))"

text \<open>\<open>s.substring(a, b)\<close>: both arguments are clamped to the string and swapped
  when out of order; \<open>s.substring(a)\<close> runs to the end of the string.\<close>

definition substring :: "string \<Rightarrow> int \<Rightarrow> int \<Rightarrow> string" where
  "substring s a b =
     (let n = int (length s);
          a' = min (max a 0) n;
          b' = min (max b 0) n
      in drop (nat (min a' b')) (take (nat (max a' b')) s))"

definition substringFrom :: "string \<Rightarrow> int \<Rightarrow> string" where
  "substringFrom s a = substring s a (int (length s))"

text \<open>\<open>s.split('\n')\<close> (never empty) and \<open>lines.join('\n')\<close>.\<close>

fun split_nl :: "string \<Rightarrow> string list" where
  "split_nl [] = [[]]"
| "split_nl (c # cs) =
     (if c = NL then [] # split_nl cs
      else (case split_nl cs of [] \<Rightarrow> [[c]] | l # ls \<Rightarrow> (c # l) # ls))"

fun join_nl :: "string list \<Rightarrow> string" where
  "join_nl [] = []"
| "join_nl [l] = l"
| "join_nl (l # ls) = l @ NL # join_nl ls"

text \<open>\<open>s.startsWith(p)\<close> and \<open>s.endsWith(p)\<close>.\<close>

definition startsWith :: "string \<Rightarrow> string \<Rightarrow> bool" where
  "startsWith s p = (take (length p) s = p)"

definition endsWith :: "string \<Rightarrow> string \<Rightarrow> bool" where
  "endsWith s p = (length p \<le> length s \<and> drop (length s - length p) s = p)"

text \<open>\<open>unit.repeat(n)\<close> raises a RangeError for a negative count.\<close>

datatype error = RangeError

definition repeat :: "string \<Rightarrow> int \<Rightarrow> error + string" where
  "repeat unit n = (if n < 0 then Inl RangeError else Inr (concat (replicate (nat n) unit)))"

subsection \<open>The two regular expressions\<close>

text \<open>
  The character class \<open>[a-z0-9]\<close> under the flag \<open>i\<close>, and the class \<open>\s\<close> on the
  code units below 256 (tab, line feed, vertical tab, form feed, carriage return, space,
  no-break space).
\<close>

definition alnum :: "char \<Rightarrow> bool" where
  "alnum c =
     (let n = (of_char c :: nat)
      in (97 \<le> n \<and> n \<le> 122) \<or> (65 \<le> n \<and> n \<le> 90) \<or> (48 \<le> n \<and> n \<le> 57))"

definition space :: "char \<Rightarrow> bool" where
  "space c = ((of_char c :: nat) \<in> {9, 10, 11, 12, 13, 32, 160})"

text \<open>
  \<open>s.match(/[^a-z0-9]([a-z0-9]+)$/i)\<close>. \<open>word_here\<close> tries the pattern at the first
  character of its argument: one character outside the class, then a non-empty run of
  the class up to the end of the string; the value is the group (the run).
  \<open>match_word\<close> tries the start positions from left to right.
\<close>

definition word_here :: "string \<Rightarrow> string option" where
  "word_here s =
     (case s of
        [] \<Rightarrow> None
      | c # w \<Rightarrow> if \<not> alnum c \<and> w \<noteq> [] \<and> list_all alnum w then Some w else None)"

fun match_word :: "string \<Rightarrow> string option" where
  "match_word [] = None"
| "match_word (c # cs) =
     (case word_here (c # cs) of Some w \<Rightarrow> Some w | None \<Rightarrow> match_word cs)"

text \<open>\<open>s.match(/^\s+/)\<close>: the longest run of white space at the start, when not empty.\<close>

definition match_indent :: "string \<Rightarrow> string option" where
  "match_indent s = (let m = takeWhile space s in if m = [] then None else Some m)"

section \<open>The editor's data\<close>

record Record =
  val :: string
  selectionStart :: int
  selectionEnd :: int

record Entry = Record +
  timestamp :: int

record History =
  stack :: "Entry list"
  offset :: int

record Props =
  tabSize :: int
  insertSpaces :: bool

text \<open>
  The component: its history, the text area \<open>_input\<close> (absent before it is mounted) and
  the values handed to the callback \<open>onValueChange\<close>, oldest first.
\<close>

record Editor =
  history :: History
  input :: "Record option"
  notified :: "string list"

record KeyEvent =
  keyCode :: int
  metaKey :: bool
  ctrlKey :: bool
  altKey :: bool
  shiftKey :: bool
  target :: Record

definition KEYCODE_ENTER :: int where "KEYCODE_ENTER = 13"
definition KEYCODE_TAB :: int where "KEYCODE_TAB = 9"
definition KEYCODE_BACKSPACE :: int where "KEYCODE_BACKSPACE = 8"
definition KEYCODE_Z :: int where "KEYCODE_Z = 90"

definition HISTORY_LIMIT :: int where "HISTORY_LIMIT = 100"
definition HISTORY_TIME_GAP :: int where "HISTORY_TIME_GAP = 3000"

definition initial_history :: History where
  "initial_history = \<lparr>stack = [], offset = -1\<rparr>"

section \<open>The history\<close>

text \<open>\<open>{ ...record, timestamp }\<close>\<close>

definition stamp :: "'a Record_scheme \<Rightarrow> int \<Rightarrow> Entry" where
  "stamp r t =
     \<lparr>val = val r, selectionStart = selectionStart r, selectionEnd = selectionEnd r,
      timestamp = t\<rparr>"

text \<open>The three fields \<open>_updateInput\<close> reads from the record it is given.\<close>

definition range_of :: "'a Record_scheme \<Rightarrow> Record" where
  "range_of r =
     \<lparr>val = val r, selectionStart = selectionStart r, selectionEnd = selectionEnd r\<rparr>"

text \<open>
  The first block of \<open>_recordChange\<close>: the redo records are dropped, and a stack longer
  than the limit loses its oldest records.
\<close>

definition dropRedo :: "History \<Rightarrow> History" where
  "dropRedo h =
     (if length (stack h) \<noteq> 0 \<and> offset h > -1 then
        (let kept = slice (stack h) 0 (offset h + 1);
             count = int (length kept)
         in if count > HISTORY_LIMIT then
              (let extras = count - HISTORY_LIMIT
               in \<lparr>stack = slice (stack h) extras count,
                   offset = max (offset h - extras) 0\<rparr>)
            else \<lparr>stack = kept, offset = offset h\<rparr>)
      else h)"

text \<open>The line before the caret: \<open>value.substring(0, selectionStart).split('\n').pop()\<close>.\<close>

definition line_before_caret :: "'a Record_scheme \<Rightarrow> string" where
  "line_before_caret r = last (split_nl (substring (val r) 0 (selectionStart r)))"

text \<open>
  \<open>_recordChange(record, overwrite)\<close>; \<open>now\<close> is what \<open>Date.now()\<close> returns
  during the call.
\<close>

definition recordChange :: "int \<Rightarrow> Record \<Rightarrow> bool \<Rightarrow> History \<Rightarrow> History" where
  "recordChange now r overwrite h0 =
     (let h = dropRedo h0;
          pushed = \<lparr>stack = stack h @ [stamp r now], offset = offset h + 1\<rparr>
      in if overwrite then
           (case nth_opt (stack h) (offset h) of
              None \<Rightarrow> pushed
            | Some lst \<Rightarrow>
                if now - timestamp lst < HISTORY_TIME_GAP then
                  (case match_word (line_before_caret lst) of
                     None \<Rightarrow> pushed
                   | Some previous \<Rightarrow>
                       (case match_word (line_before_caret r) of
                          None \<Rightarrow> pushed
                        | Some current \<Rightarrow>
                            if startsWith current previous then
                              \<lparr>stack = (stack h)[nat (offset h) := stamp r now],
                               offset = offset h\<rparr>
                            else pushed))
                else pushed)
         else pushed)"

section \<open>The editor's operations\<close>

text \<open>\<open>_recordCurrentState\<close>, called once when the component is mounted.\<close>

definition recordCurrentState :: "int \<Rightarrow> Editor \<Rightarrow> Editor" where
  "recordCurrentState now ed =
     (case input ed of
        None \<Rightarrow> ed
      | Some inp \<Rightarrow> ed\<lparr>history := recordChange now (range_of inp) False (history ed)\<rparr>)"

text \<open>\<open>_updateInput(record)\<close>: nothing is written and nobody is told without a text area.\<close>

definition updateInput :: "'a Record_scheme \<Rightarrow> Editor \<Rightarrow> Editor" where
  "updateInput r ed =
     (case input ed of
        None \<Rightarrow> ed
      | Some inp \<Rightarrow> ed\<lparr>input := Some (range_of r), notified := notified ed @ [val r]\<rparr>)"

text \<open>
  \<open>_applyEdits(record)\<close>: the current record takes the live selection of the text area,
  then the edit is recorded (never overwriting) and written to the text area.
\<close>

definition saveSelection :: "History \<Rightarrow> Record option \<Rightarrow> History" where
  "saveSelection h inp =
     (case (nth_opt (stack h) (offset h), inp) of
        (Some lst, Some i) \<Rightarrow>
          h\<lparr>stack := (stack h)[nat (offset h) :=
               lst\<lparr>selectionStart := selectionStart i, selectionEnd := selectionEnd i\<rparr>]\<rparr>
      | _ \<Rightarrow> h)"

definition applyEdits :: "int \<Rightarrow> Record \<Rightarrow> Editor \<Rightarrow> Editor" where
  "applyEdits now r ed =
     updateInput r
       (ed\<lparr>history := recordChange now r False (saveSelection (history ed) (input ed))\<rparr>)"

text \<open>\<open>_undoEdit\<close> and \<open>_redoEdit\<close>.\<close>

definition undoEdit :: "Editor \<Rightarrow> Editor" where
  "undoEdit ed =
     (let h = history ed
      in case nth_opt (stack h) (offset h - 1) of
           None \<Rightarrow> ed
         | Some r \<Rightarrow>
             (updateInput r ed)\<lparr>history := h\<lparr>offset := max (offset h - 1) 0\<rparr>\<rparr>)"

definition redoEdit :: "Editor \<Rightarrow> Editor" where
  "redoEdit ed =
     (let h = history ed
      in case nth_opt (stack h) (offset h + 1) of
           None \<Rightarrow> ed
         | Some r \<Rightarrow>
             (updateInput r ed)
               \<lparr>history := h\<lparr>offset := min (offset h + 1) (int (length (stack h)) - 1)\<rparr>\<rparr>)"

text \<open>\<open>(insertSpaces ? ' ' : '     ').repeat(tabSize)\<close>: the second literal is five spaces.\<close>

definition tabCharacter :: "Props \<Rightarrow> error + string" where
  "tabCharacter props =
     repeat (if insertSpaces props then '' '' else ''     '') (tabSize props)"

text \<open>
  The three edits of \<open>_handleKeyDown\<close>, each as the record it hands to \<open>_applyEdits\<close>;
  \<open>tab\<close> is the tab character, \<open>t\<close> the event's target.
\<close>

definition insertTab :: "string \<Rightarrow> Record \<Rightarrow> Record" where
  "insertTab tab t =
     (let updatedSelection = selectionStart t + int (length tab)
      in \<lparr>val = substring (val t) 0 (selectionStart t) @ tab @
                 substringFrom (val t) (selectionEnd t),
          selectionStart = updatedSelection,
          selectionEnd = updatedSelection\<rparr>)"

definition lines_before :: "string \<Rightarrow> int \<Rightarrow> int" where
  "lines_before v pos = int (length (split_nl (substring v 0 pos))) - 1"

definition indentLines :: "string \<Rightarrow> Record \<Rightarrow> Record" where
  "indentLines tab t =
     (let startLine = lines_before (val t) (selectionStart t);
          endLine = lines_before (val t) (selectionEnd t);
          ls = split_nl (val t)
      in \<lparr>val = join_nl (map (\<lambda>(line, i).
                   if int i \<ge> startLine \<and> int i \<le> endLine then tab @ line else line)
                 (zip ls [0..<length ls])),
          selectionStart = selectionStart t + int (length tab),
          selectionEnd = selectionEnd t + int (length tab) * (endLine - startLine + 1)\<rparr>)"

definition removeTab :: "string \<Rightarrow> Record \<Rightarrow> Record" where
  "removeTab tab t =
     (let updatedSelection = selectionStart t - int (length tab)
      in \<lparr>val = substring (val t) 0 (selectionStart t - int (length tab)) @
                 substringFrom (val t) (selectionEnd t),
          selectionStart = updatedSelection,
          selectionEnd = updatedSelection\<rparr>)"

definition insertIndent :: "string \<Rightarrow> Record \<Rightarrow> Record" where
  "insertIndent m t =
     (let indent = NL # m;
          updatedSelection = selectionStart t + int (length indent)
      in \<lparr>val = substring (val t) 0 (selectionStart t) @ indent @
                 substringFrom (val t) (selectionEnd t),
          selectionStart = updatedSelection,
          selectionEnd = updatedSelection\<rparr>)"

text \<open>
  \<open>_handleKeyDown(e)\<close>: the error of \<open>repeat\<close>, or whether \<open>e.preventDefault()\<close> was
  called together with the editor after the event.
\<close>

definition handleKeyDown :: "Props \<Rightarrow> int \<Rightarrow> KeyEvent \<Rightarrow> Editor \<Rightarrow> error + bool \<times> Editor" where
  "handleKeyDown props now e ed =
     (case tabCharacter props of
        Inl err \<Rightarrow> Inl err
      | Inr tab \<Rightarrow>
          (let t = target e
           in if keyCode e = KEYCODE_TAB then
                (if selectionStart t = selectionEnd t
                 then Inr (True, applyEdits now (insertTab tab t) ed)
                 else Inr (True, applyEdits now (indentLines tab t) ed))
              else if keyCode e = KEYCODE_BACKSPACE then
                (let hasSelection = (selectionStart t \<noteq> selectionEnd t);
                     textBeforeCaret = substring (val t) 0 (selectionStart t)
                 in if endsWith textBeforeCaret tab \<and> \<not> hasSelection
                    then Inr (True, applyEdits now (removeTab tab t) ed)
                    else Inr (False, ed))
              else if keyCode e = KEYCODE_ENTER then
                (if selectionStart t = selectionEnd t then
                   (case match_indent (line_before_caret t) of
                      None \<Rightarrow> Inr (False, ed)
                    | Some m \<Rightarrow> Inr (True, applyEdits now (insertIndent m t) ed))
                 else Inr (False, ed))
              else if keyCode e = KEYCODE_Z \<and> metaKey e \<noteq> ctrlKey e \<and> \<not> altKey e then
                (if shiftKey e then Inr (True, redoEdit ed) else Inr (True, undoEdit ed))
              else Inr (False, ed)))"

text \<open>\<open>_handleChange(e)\<close>: the text area's own edit, recorded with \<open>overwrite\<close>.\<close>

definition handleChange :: "int \<Rightarrow> Record \<Rightarrow> Editor \<Rightarrow> Editor" where
  "handleChange now t ed =
     ed\<lparr>history := recordChange now t True (history ed), notified := notified ed @ [val t]\<rparr>"

section \<open>Sequences of calls\<close>

text \<open>A sequence of calls \<open>_recordChange(record)\<close>, each with the time of its call.\<close>

fun recordAll :: "(int \<times> Record) list \<Rightarrow> History \<Rightarrow> History" where
  "recordAll [] h = h"
| "recordAll ((now, r) # es) h = recordAll es (recordChange now r False h)"

text \<open>The records such a sequence adds, in order.\<close>

definition stamped :: "(int \<times> Record) list \<Rightarrow> Entry list" where
  "stamped es = map (\<lambda>(now, r). stamp r now) es"

text \<open>The history's cursor is on its newest record (or the history is empty).\<close>

definition at_top :: "History \<Rightarrow> bool" where
  "at_top h = (offset h = int (length (stack h)) - 1)"

text \<open>
  What every history the editor reaches satisfies: the cursor is \<open>-1\<close> on the empty
  stack and an index of the stack otherwise, and the stack never holds more than one
  record above \<open>HISTORY_LIMIT\<close>.
\<close>

definition hist_inv :: "History \<Rightarrow> bool" where
  "hist_inv h =
     (if stack h = [] then offset h = -1
      else 0 \<le> offset h \<and> offset h < int (length (stack h)) \<and>
           int (length (stack h)) \<le> HISTORY_LIMIT + 1)"

text \<open>The empty text with the caret at its start.\<close>

definition blank :: Record where
  "blank = \<lparr>val = [], selectionStart = 0, selectionEnd = 0\<rparr>"

section \<open>The specification's words\<close>

text \<open>
  The word a line ends with, as the specification of coalescing says it: the line is some
  text, one character that is neither a letter nor a digit, and then the word, a
  non-empty run of letters and digits up to the end of the line.
\<close>

definition trailing_token :: "string \<Rightarrow> string \<Rightarrow> bool" where
  "trailing_token line w =
     (\<exists>pre c. line = pre @ c # w \<and> \<not> alnum c \<and> w \<noteq> [] \<and> list_all alnum w)"

text \<open>The text of a record before its caret, after the last line feed there.\<close>

definition caret_line :: "'a Record_scheme \<Rightarrow> string" where
  "caret_line r =
     rev (takeWhile (\<lambda>c. c \<noteq> NL) (rev (take (nat (selectionStart r)) (val r))))"

text \<open>
  When a call \<open>record(candidate, overwrite)\<close> replaces the current record, in the
  claim's words: \<open>overwrite\<close> is set, a current record exists and is less than 3000 ms
  old, both lines before the caret end with a word, and the candidate's word starts
  with the current record's word.
\<close>

definition coalesces :: "int \<Rightarrow> Record \<Rightarrow> bool \<Rightarrow> History \<Rightarrow> bool" where
  "coalesces now r overwrite h =
     (overwrite \<and>
      (\<exists>lst previous current.
         nth_opt (stack h) (offset h) = Some lst \<and>
         now - timestamp lst < 3000 \<and>
         trailing_token (caret_line lst) previous \<and>
         trailing_token (caret_line r) current \<and>
         prefix previous current))"

text \<open>A history whose only record ends with the word \<open>fo\<close>, and the edit that types \<open>o\<close>.\<close>

definition typed_fo :: History where
  "typed_fo =
     \<lparr>stack = [\<lparr>val = ''x fo'', selectionStart = 4, selectionEnd = 4, timestamp = 1000\<rparr>],
      offset = 0\<rparr>"

definition typed_foo :: Record where
  "typed_foo = \<lparr>val = ''x foo'', selectionStart = 5, selectionEnd = 5\<rparr>"

section \<open>Undo and redo\<close>



text \<open>The invariant of the data model: \<open>-1 \<le> offset < length(stack)\<close>.\<close>

definition in_bounds :: "History \<Rightarrow> bool" where
  "in_bounds h = (-1 \<le> offset h \<and> offset h \<le> int (length (stack h)) - 1)"


text \<open>
  A session as the component starts it: the text area is mounted with the empty text,
  and \<open>componentDidMount\<close> has recorded it at time 0.
\<close>

definition session0 :: Editor where
  "session0 =
     recordCurrentState 0 \<lparr>history = initial_history, input = Some blank, notified = []\<rparr>"


text \<open>The component before it has recorded anything: empty history, text area mounted.\<close>

definition fresh :: Editor where
  "fresh = \<lparr>history = initial_history, input = Some blank, notified = []\<rparr>"


section \<open>Keys\<close>

text \<open>
  The tab character as the specification describes it: one space, or the literal of five
  spaces, repeated \<open>tabSize\<close> times.
\<close>

definition tabString :: "Props \<Rightarrow> string" where
  "tabString props =
     concat (replicate (nat (tabSize props)) (if insertSpaces props then '' '' else ''     ''))"

text \<open>The number of line feeds before a position of a text.\<close>

definition newlines_before :: "string \<Rightarrow> int \<Rightarrow> int" where
  "newlines_before v pos = int (length (filter (\<lambda>c. c = NL) (take (nat pos) v)))"

text \<open>The lines \<open>ls\<close> with \<open>tab\<close> put before each line whose index is in \<open>[a, b]\<close>.\<close>

definition indented :: "string \<Rightarrow> int \<Rightarrow> int \<Rightarrow> string list \<Rightarrow> string list" where
  "indented tab a b ls =
     map (\<lambda>i. if a \<le> int i \<and> int i \<le> b then tab @ ls ! i else ls ! i) [0..<length ls]"

text \<open>A key pressed in the text area with no modifier held.\<close>

definition keyPress :: "int \<Rightarrow> Record \<Rightarrow> KeyEvent" where
  "keyPress code t =
     \<lparr>keyCode = code, metaKey = False, ctrlKey = False, altKey = False, shiftKey = False,
      target = t\<rparr>"

text \<open>A session started on the text area \<open>t\<close>: \<open>componentDidMount\<close> has recorded it at time 0.\<close>

definition editing :: "Record \<Rightarrow> Editor" where
  "editing t =
     recordCurrentState 0 \<lparr>history = initial_history, input = Some t, notified = []\<rparr>"

text \<open>What the text area holds after a key, when the handler returns.\<close>

definition textAfterKey :: "Props \<Rightarrow> int \<Rightarrow> KeyEvent \<Rightarrow> Editor \<Rightarrow> Record option" where
  "textAfterKey props now e ed =
     (case handleKeyDown props now e ed of
        Inl err \<Rightarrow> None
      | Inr (prevented, ed') \<Rightarrow> input ed')"

text \<open>The components \<open>defaultProps\<close>.\<close>

definition defaultProps :: Props where
  "defaultProps = \<lparr>tabSize = 2, insertSpaces = True\<rparr>"

text \<open>The text \<open>abcd\<close> with the caret at its end.\<close>

definition abcd4 :: Record where
  "abcd4 = \<lparr>val = ''abcd'', selectionStart = 4, selectionEnd = 4\<rparr>"

text \<open>Configurations and text areas for the examples.\<close>

definition wideTabs :: Props where
  "wideTabs = \<lparr>tabSize = 1, insertSpaces = False\<rparr>"

definition ab1 :: Record where
  "ab1 = \<lparr>val = ''ab'', selectionStart = 1, selectionEnd = 1\<rparr>"

definition a_b :: Record where
  "a_b = \<lparr>val = CHR ''a'' # NL # ''b'', selectionStart = 0, selectionEnd = 3\<rparr>"

definition a__b :: Record where
  "a__b = \<lparr>val = ''a  b'', selectionStart = 3, selectionEnd = 3\<rparr>"

definition foo5 :: Record where
  "foo5 = \<lparr>val = ''  foo'', selectionStart = 5, selectionEnd = 5\<rparr>"

definition noTabs :: Props where
  "noTabs = \<lparr>tabSize = 0, insertSpaces = True\<rparr>"

section \<open>Strings: what the helpers compute\<close>

lemma split_nl_nonempty: "split_nl s \<noteq> []"
  by (induction s) (auto split: list.splits)

lemma length_split_nl: "length (split_nl s) = Suc (length (filter (\<lambda>c. c = NL) s))"
  by (induction s) (auto split: list.splits simp: split_nl_nonempty)

lemma split_nl_no_NL: "NL \<notin> set l \<Longrightarrow> split_nl l = [l]"
  by (induction l) auto

lemma set_split_nl: "l \<in> set (split_nl s) \<Longrightarrow> NL \<notin> set l"
proof (induction s arbitrary: l)
  case Nil then show ?case by simp
next
  case (Cons c cs)
  show ?case
  proof (cases "c = NL")
    case True
    then have "l = [] \<or> l \<in> set (split_nl cs)" using Cons.prems by simp
    then show ?thesis using Cons.IH by auto
  next
    case False
    obtain x xs where x: "split_nl cs = x # xs"
      using split_nl_nonempty [of cs] by (cases "split_nl cs") simp_all
    then have "l = c # x \<or> l \<in> set xs" using Cons.prems False by simp
    moreover have "NL \<notin> set x" using Cons.IH [of x] x by simp
    moreover have "l \<in> set xs \<Longrightarrow> NL \<notin> set l" using Cons.IH [of l] x by simp
    ultimately show ?thesis using False by auto
  qed
qed

lemma substring_0: "substring s 0 b = take (nat b) s"
  by (auto simp: substring_def Let_def min_def max_def)

lemma substringFrom_drop: "substringFrom s a = drop (nat a) s"
  by (auto simp: substringFrom_def substring_def Let_def min_def max_def)

lemma slice_nonneg: "0 \<le> b \<Longrightarrow> 0 \<le> e \<Longrightarrow> slice xs b e = drop (nat b) (take (nat e) xs)"
  by (auto simp: slice_def Let_def min_def max_def)

lemma join_nl_Cons: "join_nl ((c # l) # ls) = c # join_nl (l # ls)"
  by (cases ls) auto

lemma join_split_nl: "join_nl (split_nl s) = s"
  by (induction s) (auto split: list.splits simp: split_nl_nonempty join_nl_Cons)

lemma split_nl_line: "NL \<notin> set l \<Longrightarrow> split_nl (l @ NL # s) = l # split_nl s"
  by (induction l) auto

lemma split_join_nl: "ls \<noteq> [] \<Longrightarrow> \<forall>l \<in> set ls. NL \<notin> set l \<Longrightarrow> split_nl (join_nl ls) = ls"
  by (induction ls rule: join_nl.induct) (auto simp: split_nl_no_NL split_nl_line)

lemma last_split_nl_Cons:
  "last (split_nl (c # s)) = (if NL \<in> set s then last (split_nl s) else if c = NL then s else c # s)"
proof (cases "NL \<in> set s")
  case True
  then have "filter (\<lambda>c. c = NL) s \<noteq> []" by (simp add: filter_empty_conv)
  then have "length (split_nl s) \<ge> 2"
    by (cases "filter (\<lambda>c. c = NL) s") (simp_all add: length_split_nl)
  then obtain x y ys where "split_nl s = x # y # ys"
    by (cases "split_nl s"; cases "tl (split_nl s)") auto
  then show ?thesis using True by simp
next
  case False
  then show ?thesis by (simp add: split_nl_no_NL)
qed

lemma last_split_nl: "last (split_nl s) = rev (takeWhile (\<lambda>c. c \<noteq> NL) (rev s))"
proof (induction s)
  case Nil then show ?case by simp
next
  case (Cons c s)
  show ?case
  proof (cases "NL \<in> set s")
    case True
    then have "takeWhile (\<lambda>c. c \<noteq> NL) (rev s @ [c]) = takeWhile (\<lambda>c. c \<noteq> NL) (rev s)"
      by (simp add: takeWhile_append1)
    then show ?thesis using Cons True by (simp add: last_split_nl_Cons del: split_nl.simps)
  next
    case False
    then have "\<forall>x \<in> set (rev s). x \<noteq> NL" by auto
    then have "takeWhile (\<lambda>c. c \<noteq> NL) (rev s @ [c]) = (if c = NL then rev s else rev s @ [c])"
      by (simp add: takeWhile_append2 del: set_rev)
    then show ?thesis using False by (simp add: last_split_nl_Cons del: split_nl.simps)
  qed
qed

lemma startsWith_prefix: "startsWith s p = prefix p s"
  by (auto simp: startsWith_def prefix_def) (metis append_eq_conv_conj)

lemma endsWith_suffix: "endsWith s p = suffix p s"
  by (auto simp: endsWith_def suffix_def) (metis append_take_drop_id)

lemma word_here_Some: "word_here s = Some w \<longleftrightarrow> (\<exists>c. s = c # w \<and> \<not> alnum c \<and> w \<noteq> [] \<and> list_all alnum w)"
  by (auto simp: word_here_def split: list.splits)

lemma trailing_word_unique:
  assumes "pre @ c # w = pre' @ c' # w'" "\<not> alnum c" "\<not> alnum c'"
    "list_all alnum w" "list_all alnum w'"
  shows "w = w'"
  using assms
proof (induction pre arbitrary: pre')
  case Nil
  show ?case
  proof (cases pre')
    case Nil then show ?thesis using Nil.prems by simp
  next
    case (Cons p ps)
    then have "c' \<in> set w" using Nil.prems(1) by auto
    then show ?thesis using Nil.prems by (simp add: list_all_iff)
  qed
next
  case (Cons x xs)
  show ?case
  proof (cases pre')
    case Nil
    then have "c \<in> set w'" using Cons.prems(1) by auto
    then show ?thesis using Cons.prems by (simp add: list_all_iff)
  next
    case (Cons p ps)
    then have "xs @ c # w = ps @ c' # w'" using Cons.prems(1) by simp
    then show ?thesis using Cons.IH Cons.prems by blast
  qed
qed

lemma match_word_Some:
  "match_word s = Some w \<longleftrightarrow> (\<exists>pre c. s = pre @ c # w \<and> \<not> alnum c \<and> w \<noteq> [] \<and> list_all alnum w)"
  (is "?M s \<longleftrightarrow> ?R s")
proof
  show "?M s \<Longrightarrow> ?R s"
  proof (induction s)
    case Nil then show ?case by simp
  next
    case (Cons a s)
    show ?case
    proof (cases "word_here (a # s)")
      case (Some v)
      then have "v = w" using Cons.prems by simp
      then have "a # s = [] @ a # w \<and> \<not> alnum a \<and> w \<noteq> [] \<and> list_all alnum w"
        using Some by (simp add: word_here_Some)
      then show ?thesis by blast
    next
      case None
      then have "match_word s = Some w" using Cons.prems by simp
      then obtain pre c where "s = pre @ c # w" "\<not> alnum c" "w \<noteq> []" "list_all alnum w"
        using Cons.IH by blast
      then have "a # s = (a # pre) @ c # w \<and> \<not> alnum c \<and> w \<noteq> [] \<and> list_all alnum w"
        by simp
      then show ?thesis by blast
    qed
  qed
next
  show "?R s \<Longrightarrow> ?M s"
  proof (induction s)
    case Nil then show ?case by simp
  next
    case (Cons a s)
    then obtain pre c where h: "a # s = pre @ c # w" "\<not> alnum c" "w \<noteq> []" "list_all alnum w"
      by blast
    show ?case
    proof (cases "word_here (a # s)")
      case (Some v)
      then have "a # s = [] @ a # v" "\<not> alnum a" "list_all alnum v"
        by (simp_all add: word_here_Some)
      then have "v = w" using h trailing_word_unique by metis
      then show ?thesis using Some by simp
    next
      case None
      have "pre \<noteq> []"
      proof
        assume "pre = []"
        then have "word_here (a # s) = Some w" using h by (simp add: word_here_Some)
        then show False using None by simp
      qed
      then obtain p ps where "pre = p # ps" by (cases pre) auto
      then have "s = ps @ c # w" using h by simp
      then have "match_word s = Some w" using Cons.IH h by blast
      then show ?thesis using None by simp
    qed
  qed
qed

section \<open>The history: its bound and its cursor\<close>

lemma recordChange_False:
  "recordChange now r False h =
     \<lparr>stack = stack (dropRedo h) @ [stamp r now], offset = offset (dropRedo h) + 1\<rparr>"
  by (simp add: recordChange_def Let_def)

lemma dropRedo_inv:
  assumes "hist_inv h"
  shows "at_top (dropRedo h) \<and> int (length (stack (dropRedo h))) \<le> HISTORY_LIMIT"
proof (cases "stack h = []")
  case True
  then show ?thesis using assms
    by (simp add: dropRedo_def hist_inv_def at_top_def HISTORY_LIMIT_def)
next
  case False
  then have o: "0 \<le> offset h" "offset h < int (length (stack h))"
    "int (length (stack h)) \<le> HISTORY_LIMIT + 1"
    using assms by (simp_all add: hist_inv_def)
  then show ?thesis using False
    by (auto simp: dropRedo_def Let_def slice_nonneg at_top_def HISTORY_LIMIT_def min_def max_def)
qed

lemma recordChange_inv:
  assumes "hist_inv h"
  shows "hist_inv (recordChange now r ow h)"
proof -
  let ?h = "dropRedo h"
  have d: "at_top ?h" "int (length (stack ?h)) \<le> HISTORY_LIMIT"
    using dropRedo_inv [OF assms] by simp_all
  have push: "hist_inv \<lparr>stack = stack ?h @ [e], offset = offset ?h + 1\<rparr>" for e
    using d by (simp add: hist_inv_def at_top_def)
  have repl: "hist_inv \<lparr>stack = (stack ?h)[k := e], offset = offset ?h\<rparr>"
    if "nth_opt (stack ?h) (offset ?h) = Some l" for e k l
    using d that by (auto simp: hist_inv_def at_top_def nth_opt_def split: if_splits)
  show ?thesis
    unfolding recordChange_def Let_def
    by (auto split: option.splits simp: push repl)
qed

lemma dropRedo_at_top:
  assumes "at_top h"
  shows "dropRedo h =
     (if length (stack h) \<le> 100 then h
      else \<lparr>stack = drop (length (stack h) - 100) (stack h), offset = 99\<rparr>)"
proof (cases "stack h = []")
  case True
  then show ?thesis by (simp add: dropRedo_def)
next
  case False
  then have "offset h + 1 = int (length (stack h))" "0 \<le> offset h"
    using assms by (simp_all add: at_top_def)
  moreover have "nat (int (length (stack h)) - 100) = length (stack h) - 100"
    by arith
  ultimately show ?thesis using False
    by (auto simp: dropRedo_def Let_def slice_nonneg HISTORY_LIMIT_def max_def)
qed

lemma recordChange_at_top:
  assumes "at_top h"
  shows "stack (recordChange now r False h) = drop (length (stack h) - 100) (stack h) @ [stamp r now]"
    and "at_top (recordChange now r False h)"
  using assms by (auto simp: recordChange_False dropRedo_at_top at_top_def)

lemma recordAll_at_top:
  assumes "at_top h" "length (stack h) \<le> 101"
  shows "stack (recordAll es h) = drop (length (stack h) + length es - 101) (stack h @ stamped es)
         \<and> at_top (recordAll es h)"
  using assms
proof (induction es arbitrary: h)
  case Nil
  then show ?case by (simp add: stamped_def)
next
  case (Cons e es)
  obtain now r where e: "e = (now, r)" by (cases e)
  let ?h = "recordChange now r False h"
  have st: "stack ?h = drop (length (stack h) - 100) (stack h) @ [stamp r now]" and top: "at_top ?h"
    using recordChange_at_top [OF Cons.prems(1)] by simp_all
  have len: "length (stack ?h) = min (length (stack h)) 100 + 1"
    using st by simp
  then have "length (stack ?h) \<le> 101" by simp
  then have ih: "stack (recordAll es ?h) =
      drop (length (stack ?h) + length es - 101) (stack ?h @ stamped es)" and top': "at_top (recordAll es ?h)"
    using Cons.IH [OF top] by simp_all
  have "drop (length (stack ?h) + length es - 101) (stack ?h @ stamped es) =
        drop (length (stack h) + length (e # es) - 101) (stack h @ stamped (e # es))"
  proof (cases "length (stack h) \<le> 100")
    case True
    then show ?thesis using st e by (simp add: stamped_def)
  next
    case False
    then have l: "length (stack h) = 101" using Cons.prems(2) by simp
    then obtain a t where at: "stack h = a # t" by (cases "stack h") auto
    have "stack ?h = t @ [stamp r now]" using st l at by simp
    moreover have "length (stack ?h) + length es - 101 = length es" using len l by simp
    moreover have "length (stack h) + length (e # es) - 101 = Suc (length es)" using l by simp
    ultimately show ?thesis using at e by (simp add: stamped_def)
  qed
  then show ?case using ih top' e by simp
qed

lemma at_top_initial: "at_top initial_history"
  by (simp add: at_top_def initial_history_def)

text \<open>
  Claim C1, evaluated where it fails: 101 calls of \<open>_recordChange\<close> on the empty
  history leave 101 records on the stack, one more than \<open>HISTORY_LIMIT\<close>, with the
  cursor on the last of them. The stack is cut to the limit before the new record is
  pushed, not after.
\<close>

theorem stack_exceeds_limit:
  "int (length (stack (recordAll (replicate 101 (0, blank)) initial_history))) = 101
   \<and> offset (recordAll (replicate 101 (0, blank)) initial_history) = 100
   \<and> HISTORY_LIMIT = 100"
proof -
  have "stack initial_history = []" by (simp add: initial_history_def)
  then show ?thesis
    using recordAll_at_top [OF at_top_initial, of "replicate 101 (0, blank)"]
    by (simp add: stamped_def at_top_def HISTORY_LIMIT_def)
qed

section \<open>Recording a change: overwrite or push\<close>

lemma line_before_caret_eq: "line_before_caret r = caret_line r"
  by (simp add: line_before_caret_def caret_line_def substring_0 last_split_nl)

lemma trailing_token_match: "trailing_token line w \<longleftrightarrow> match_word line = Some w"
  by (simp add: trailing_token_def match_word_Some)

lemma coalesces_code:
  "coalesces now r overwrite h =
     (overwrite \<and>
      (case nth_opt (stack h) (offset h) of
         None \<Rightarrow> False
       | Some lst \<Rightarrow>
           now - timestamp lst < HISTORY_TIME_GAP \<and>
           (case match_word (line_before_caret lst) of
              None \<Rightarrow> False
            | Some previous \<Rightarrow>
                (case match_word (line_before_caret r) of
                   None \<Rightarrow> False
                 | Some current \<Rightarrow> startsWith current previous))))"
  by (auto simp: coalesces_def trailing_token_match line_before_caret_eq startsWith_prefix
      HISTORY_TIME_GAP_def split: option.splits)

text \<open>
  Claim C2. After the redo records are dropped and the stack is cut (\<open>dropRedo\<close>),
  \<open>_recordChange\<close> replaces the current record in place exactly when the claim's
  condition holds (\<open>coalesces\<close>): the record under the cursor then has the candidate's
  value and selection and the time of the call as its time stamp, every other record is
  as before, and the stack keeps its length and the cursor its place. In every other
  case a record with the candidate's value and selection and the time of the call is
  pushed behind the others and the cursor moves up by one, so the stack is one longer.
\<close>

theorem recordChange_overwrite_iff:
  "recordChange now r overwrite h0 =
     (if coalesces now r overwrite (dropRedo h0)
      then \<lparr>stack = (stack (dropRedo h0))[nat (offset (dropRedo h0)) :=
               \<lparr>val = val r, selectionStart = selectionStart r, selectionEnd = selectionEnd r,
                timestamp = now\<rparr>],
            offset = offset (dropRedo h0)\<rparr>
      else \<lparr>stack = stack (dropRedo h0) @
               [\<lparr>val = val r, selectionStart = selectionStart r, selectionEnd = selectionEnd r,
                timestamp = now\<rparr>],
            offset = offset (dropRedo h0) + 1\<rparr>)
   \<and> (coalesces now r overwrite (dropRedo h0) \<longleftrightarrow>
        length (stack (recordChange now r overwrite h0)) = length (stack (dropRedo h0)))
   \<and> (coalesces now r overwrite (dropRedo h0) \<longrightarrow>
        offset (recordChange now r overwrite h0) = offset (dropRedo h0) \<and>
        nth_opt (stack (recordChange now r overwrite h0)) (offset (dropRedo h0)) =
          Some \<lparr>val = val r, selectionStart = selectionStart r, selectionEnd = selectionEnd r,
                timestamp = now\<rparr> \<and>
        (\<forall>i. i \<noteq> offset (dropRedo h0) \<longrightarrow>
           nth_opt (stack (recordChange now r overwrite h0)) i =
             nth_opt (stack (dropRedo h0)) i))
   \<and> (\<not> coalesces now r overwrite (dropRedo h0) \<longrightarrow>
        offset (recordChange now r overwrite h0) = offset (dropRedo h0) + 1 \<and>
        last (stack (recordChange now r overwrite h0)) =
          \<lparr>val = val r, selectionStart = selectionStart r, selectionEnd = selectionEnd r,
                timestamp = now\<rparr> \<and>
        butlast (stack (recordChange now r overwrite h0)) = stack (dropRedo h0))"
proof -
  let ?h = "dropRedo h0"
  let ?e = "\<lparr>val = val r, selectionStart = selectionStart r, selectionEnd = selectionEnd r,
                timestamp = now\<rparr>"
  have eq: "recordChange now r overwrite h0 =
     (if coalesces now r overwrite ?h
      then \<lparr>stack = (stack ?h)[nat (offset ?h) := ?e], offset = offset ?h\<rparr>
      else \<lparr>stack = stack ?h @ [?e], offset = offset ?h + 1\<rparr>)"
    by (simp add: recordChange_def coalesces_code Let_def stamp_def split: option.splits)
  have idx: "nth_opt ((stack ?h)[nat (offset ?h) := e]) (offset ?h) = Some e"
    if "coalesces now r overwrite ?h" for e
    using that by (auto simp: coalesces_def nth_opt_def split: if_splits)
  have rest: "nth_opt ((stack ?h)[nat (offset ?h) := e]) i = nth_opt (stack ?h) i"
    if c: "coalesces now r overwrite ?h" and i: "i \<noteq> offset ?h" for e i
  proof -
    have "0 \<le> offset ?h" using c by (auto simp: coalesces_def nth_opt_def split: if_splits)
    then have "0 \<le> i \<Longrightarrow> nat (offset ?h) \<noteq> nat i" using i by simp
    then show ?thesis by (auto simp: nth_opt_def)
  qed
  show ?thesis
    unfolding eq using idx rest by simp
qed

lemma dropRedo_typed_fo: "dropRedo typed_fo = typed_fo"
  by (simp add: dropRedo_def typed_fo_def slice_def HISTORY_LIMIT_def)

lemma lines_typed:
  "line_before_caret typed_foo = ''x foo''"
  "line_before_caret (hd (stack typed_fo)) = ''x fo''"
  by (simp_all add: line_before_caret_def typed_foo_def typed_fo_def substring_def NL_def)

lemma nth_typed:
  "nth_opt (stack typed_fo) 0 = Some (hd (stack typed_fo))" "offset typed_fo = 0"
  "timestamp (hd (stack typed_fo)) = 1000"
  by (simp_all add: nth_opt_def typed_fo_def)

lemma words_typed: "match_word ''x foo'' = Some ''foo''" "match_word ''x fo'' = Some ''fo''"
  by (simp_all add: word_here_def alnum_def)

lemma coalesces_typed_near: "coalesces 2000 typed_foo True (dropRedo typed_fo)"
  by (simp add: coalesces_code dropRedo_typed_fo nth_typed lines_typed words_typed
      startsWith_def HISTORY_TIME_GAP_def del: match_word.simps)

lemma coalesces_typed_late: "\<not> coalesces 4000 typed_foo True (dropRedo typed_fo)"
  by (simp add: coalesces_code dropRedo_typed_fo nth_typed HISTORY_TIME_GAP_def
      del: match_word.simps)

lemma coalesces_typed_plain: "\<not> coalesces 2000 typed_foo False (dropRedo typed_fo)"
  by (simp add: coalesces_code)

theorem recordChange_overwrite_iff_witness:
  "recordChange 2000 typed_foo True typed_fo =
     \<lparr>stack = [\<lparr>val = ''x foo'', selectionStart = 5, selectionEnd = 5, timestamp = 2000\<rparr>],
      offset = 0\<rparr>
   \<and> recordChange 4000 typed_foo True typed_fo =
       \<lparr>stack = [\<lparr>val = ''x fo'', selectionStart = 4, selectionEnd = 4, timestamp = 1000\<rparr>,
                 \<lparr>val = ''x foo'', selectionStart = 5, selectionEnd = 5, timestamp = 4000\<rparr>],
        offset = 1\<rparr>
   \<and> recordChange 2000 typed_foo False typed_fo =
       \<lparr>stack = [\<lparr>val = ''x fo'', selectionStart = 4, selectionEnd = 4, timestamp = 1000\<rparr>,
                 \<lparr>val = ''x foo'', selectionStart = 5, selectionEnd = 5, timestamp = 2000\<rparr>],
        offset = 1\<rparr>"
proof -
  have s: "stack typed_fo =
      [\<lparr>val = ''x fo'', selectionStart = 4, selectionEnd = 4, timestamp = 1000\<rparr>]"
    by (simp add: typed_fo_def)
  have f: "val typed_foo = ''x foo''" "selectionStart typed_foo = 5" "selectionEnd typed_foo = 5"
    by (simp_all add: typed_foo_def)
  have "recordChange 2000 typed_foo True typed_fo =
     \<lparr>stack = [\<lparr>val = ''x foo'', selectionStart = 5, selectionEnd = 5, timestamp = 2000\<rparr>],
      offset = 0\<rparr>"
    using recordChange_overwrite_iff [of 2000 typed_foo True typed_fo, THEN conjunct1]
      coalesces_typed_near
    by (simp add: dropRedo_typed_fo nth_typed(2) s f)
  moreover have "recordChange 4000 typed_foo True typed_fo =
       \<lparr>stack = [\<lparr>val = ''x fo'', selectionStart = 4, selectionEnd = 4, timestamp = 1000\<rparr>,
                 \<lparr>val = ''x foo'', selectionStart = 5, selectionEnd = 5, timestamp = 4000\<rparr>],
        offset = 1\<rparr>"
    using recordChange_overwrite_iff [of 4000 typed_foo True typed_fo, THEN conjunct1]
      coalesces_typed_late
    by (simp add: dropRedo_typed_fo nth_typed(2) s f)
  moreover have "recordChange 2000 typed_foo False typed_fo =
       \<lparr>stack = [\<lparr>val = ''x fo'', selectionStart = 4, selectionEnd = 4, timestamp = 1000\<rparr>,
                 \<lparr>val = ''x foo'', selectionStart = 5, selectionEnd = 5, timestamp = 2000\<rparr>],
        offset = 1\<rparr>"
    using recordChange_overwrite_iff [of 2000 typed_foo False typed_fo, THEN conjunct1]
      coalesces_typed_plain
    by (simp add: dropRedo_typed_fo nth_typed(2) s f)
  ultimately show ?thesis by simp
qed

section \<open>Undo and redo: the steps\<close>














lemma session0_eq:
  "session0 = \<lparr>history = \<lparr>stack = [stamp blank 0], offset = 0\<rparr>, input = Some blank, notified = []\<rparr>"
  by (simp add: session0_def recordCurrentState_def recordChange_False dropRedo_def
      initial_history_def range_of_def blank_def stamp_def)

lemma session0_fields:
  "input session0 = Some blank" "stack (history session0) = [stamp blank 0]"
  "offset (history session0) = 0" "at_top (history session0)"
  by (simp_all add: session0_eq at_top_def)



section \<open>Undo and redo: beyond the limit\<close>

lemma updateInput_stack: "history (updateInput r ed) = history ed"
  by (simp add: updateInput_def split: option.splits)










section \<open>Undo and redo: at the ends of the history\<close>

lemma undoEdit_offset:
  "undoEdit ed = ed \<or>
   (stack (history (undoEdit ed)) = stack (history ed) \<and>
    offset (history (undoEdit ed)) = offset (history ed) - 1 \<and>
    0 \<le> offset (history (undoEdit ed)) \<and>
    offset (history (undoEdit ed)) < int (length (stack (history ed))))"
  by (auto simp: undoEdit_def Let_def nth_opt_def updateInput_def split: option.splits if_splits)

lemma redoEdit_offset:
  "redoEdit ed = ed \<or>
   (stack (history (redoEdit ed)) = stack (history ed) \<and>
    offset (history (redoEdit ed)) = offset (history ed) + 1 \<and>
    0 \<le> offset (history (redoEdit ed)) \<and>
    offset (history (redoEdit ed)) < int (length (stack (history ed))))"
  by (auto simp: redoEdit_def Let_def nth_opt_def updateInput_def split: option.splits if_splits)

text \<open>
  Claim C9. Undo without a record below the cursor and redo without a record above it
  return the editor as it was: the cursor, the text area and the values reported to
  \<open>onValueChange\<close> are unchanged, and no error is a possible result. This covers the
  empty history, a cursor at or below the first record for undo, and a cursor on the
  newest record for redo. Neither operation changes the stack; a cursor within
  \<open>[-1, length(stack) - 1]\<close> stays there, and a cursor that is not negative stays so.
\<close>

theorem undo_redo_noop_at_bounds:
  "(nth_opt (stack (history ed)) (offset (history ed) - 1) = None \<longrightarrow> undoEdit ed = ed)
   \<and> (nth_opt (stack (history ed)) (offset (history ed) + 1) = None \<longrightarrow> redoEdit ed = ed)
   \<and> (history ed = initial_history \<longrightarrow> undoEdit ed = ed \<and> redoEdit ed = ed)
   \<and> (offset (history ed) \<le> 0 \<longrightarrow> undoEdit ed = ed)
   \<and> (offset (history ed) = int (length (stack (history ed))) - 1 \<longrightarrow> redoEdit ed = ed)
   \<and> stack (history (undoEdit ed)) = stack (history ed)
   \<and> stack (history (redoEdit ed)) = stack (history ed)
   \<and> (in_bounds (history ed) \<longrightarrow>
        in_bounds (history (undoEdit ed)) \<and> in_bounds (history (redoEdit ed)))
   \<and> (0 \<le> offset (history ed) \<longrightarrow>
        0 \<le> offset (history (undoEdit ed)) \<and> 0 \<le> offset (history (redoEdit ed)))"
proof -
  have u: "undoEdit ed = ed" if "nth_opt (stack (history ed)) (offset (history ed) - 1) = None"
    using that by (simp add: undoEdit_def)
  have r: "redoEdit ed = ed" if "nth_opt (stack (history ed)) (offset (history ed) + 1) = None"
    using that by (simp add: redoEdit_def)
  have u0: "nth_opt (stack (history ed)) (offset (history ed) - 1) = None"
    if "offset (history ed) \<le> 0"
    using that by (simp add: nth_opt_def)
  have r0: "nth_opt (stack (history ed)) (offset (history ed) + 1) = None"
    if "offset (history ed) = int (length (stack (history ed))) - 1"
    using that by (simp add: nth_opt_def)
  have i: "offset (history ed) \<le> 0 \<and> offset (history ed) = int (length (stack (history ed))) - 1"
    if "history ed = initial_history"
    using that by (simp add: initial_history_def)
  have su: "stack (history (undoEdit ed)) = stack (history ed)"
    using undoEdit_offset [of ed] by auto
  have sr: "stack (history (redoEdit ed)) = stack (history ed)"
    using redoEdit_offset [of ed] by auto
  have bu: "in_bounds (history (undoEdit ed))" if "in_bounds (history ed)"
    using undoEdit_offset [of ed] that by (auto simp: in_bounds_def)
  have br: "in_bounds (history (redoEdit ed))" if "in_bounds (history ed)"
    using redoEdit_offset [of ed] that by (auto simp: in_bounds_def)
  have nu: "0 \<le> offset (history (undoEdit ed))" if "0 \<le> offset (history ed)"
    using undoEdit_offset [of ed] that by auto
  have nr: "0 \<le> offset (history (redoEdit ed))" if "0 \<le> offset (history ed)"
    using redoEdit_offset [of ed] that by auto
  have ub: "undoEdit ed = ed" if "offset (history ed) \<le> 0"
    using u0 [OF that] by (rule u)
  have rt: "redoEdit ed = ed" if "offset (history ed) = int (length (stack (history ed))) - 1"
    using r0 [OF that] by (rule r)
  have ie: "undoEdit ed = ed \<and> redoEdit ed = ed" if "history ed = initial_history"
    using i [OF that] ub rt by simp
  show ?thesis
    by (intro conjI impI) (simp_all add: u r ub rt ie su sr bu br nu nr)
qed

theorem undo_redo_noop_at_bounds_witness:
  "undoEdit fresh = fresh \<and> redoEdit fresh = fresh
   \<and> undoEdit session0 = session0 \<and> redoEdit session0 = session0
   \<and> in_bounds (history session0) \<and> in_bounds (history (undoEdit session0))
   \<and> offset (history (undoEdit fresh)) = -1"
proof -
  have f: "history fresh = initial_history" by (simp add: fresh_def)
  have s: "offset (history session0) \<le> 0"
    "offset (history session0) = int (length (stack (history session0))) - 1"
    "in_bounds (history session0)"
    by (simp_all add: session0_fields in_bounds_def)
  have "undoEdit fresh = fresh \<and> redoEdit fresh = fresh"
    using undo_redo_noop_at_bounds [of fresh] f by blast
  moreover have "undoEdit session0 = session0 \<and> redoEdit session0 = session0
      \<and> in_bounds (history (undoEdit session0))"
    using undo_redo_noop_at_bounds [of session0] s by blast
  ultimately show ?thesis using s f by (simp add: initial_history_def)
qed

section \<open>Keys: the tab character\<close>

lemma tabCharacter_tabString: "0 \<le> tabSize props \<Longrightarrow> tabCharacter props = Inr (tabString props)"
  by (simp add: tabCharacter_def repeat_def tabString_def)

lemma concat_replicate_spaces:
  "concat (replicate n (replicate k c)) = replicate (n * k) c"
  by (induction n) (simp_all add: replicate_add)

lemma five_spaces: "''     '' = replicate 5 (CHR '' '')" "'' '' = replicate 1 (CHR '' '')"
  by (simp_all add: eval_nat_numeral)

lemma tabString_spaces:
  "tabString props = replicate (nat (tabSize props) * (if insertSpaces props then 1 else 5)) (CHR '' '')"
proof -
  have a: "concat (replicate n ''     '') = replicate (n * 5) (CHR '' '')" for n
    by (simp only: five_spaces(1) concat_replicate_spaces)
  have b: "concat (replicate n '' '') = replicate (n * 1) (CHR '' '')" for n
    by (simp only: five_spaces(2) concat_replicate_spaces)
  show ?thesis by (simp add: tabString_def a b del: replicate.simps)
qed

lemma length_tabString:
  "length (tabString props) = nat (tabSize props) * (if insertSpaces props then 1 else 5)"
  by (simp add: tabString_spaces)

lemma range_of_Record: "range_of (r::Record) = r"
  by (simp add: range_of_def)

lemma applyEdits_input:
  "input ed \<noteq> None \<Longrightarrow> input (applyEdits now r ed) = Some r"
  by (auto simp: applyEdits_def updateInput_def range_of_Record)

lemma handleKeyDown_tab:
  assumes "0 \<le> tabSize props" "keyCode e = KEYCODE_TAB"
  shows "handleKeyDown props now e ed =
     Inr (True, applyEdits now
       (if selectionStart (target e) = selectionEnd (target e)
        then insertTab (tabString props) (target e)
        else indentLines (tabString props) (target e)) ed)"
  using assms by (simp add: handleKeyDown_def tabCharacter_tabString Let_def)

lemma handleKeyDown_backspace:
  assumes "0 \<le> tabSize props" "keyCode e = KEYCODE_BACKSPACE"
  shows "handleKeyDown props now e ed =
     (if selectionStart (target e) = selectionEnd (target e) \<and>
         suffix (tabString props) (take (nat (selectionStart (target e))) (val (target e)))
      then Inr (True, applyEdits now (removeTab (tabString props) (target e)) ed)
      else Inr (False, ed))"
  using assms
  by (auto simp: handleKeyDown_def tabCharacter_tabString Let_def KEYCODE_TAB_def
      KEYCODE_BACKSPACE_def substring_0 endsWith_suffix)

lemma handleKeyDown_enter:
  assumes "0 \<le> tabSize props" "keyCode e = KEYCODE_ENTER"
  shows "handleKeyDown props now e ed =
     (if selectionStart (target e) = selectionEnd (target e) \<and>
         takeWhile space (caret_line (target e)) \<noteq> []
      then Inr (True, applyEdits now
             (insertIndent (takeWhile space (caret_line (target e))) (target e)) ed)
      else Inr (False, ed))"
  using assms
  by (auto simp: handleKeyDown_def tabCharacter_tabString Let_def KEYCODE_TAB_def
      KEYCODE_BACKSPACE_def KEYCODE_ENTER_def match_indent_def line_before_caret_eq)

lemma insertTab_eq:
  "insertTab tab t =
     \<lparr>val = take (nat (selectionStart t)) (val t) @ tab @ drop (nat (selectionEnd t)) (val t),
      selectionStart = selectionStart t + int (length tab),
      selectionEnd = selectionStart t + int (length tab)\<rparr>"
  by (simp add: insertTab_def Let_def substring_0 substringFrom_drop)

lemma removeTab_eq:
  "removeTab tab t =
     \<lparr>val = take (nat (selectionStart t) - length tab) (val t) @ drop (nat (selectionEnd t)) (val t),
      selectionStart = selectionStart t - int (length tab),
      selectionEnd = selectionStart t - int (length tab)\<rparr>"
proof -
  have "nat (selectionStart t - int (length tab)) = nat (selectionStart t) - length tab"
    by arith
  then show ?thesis
    by (simp add: removeTab_def Let_def substring_0 substringFrom_drop)
qed

lemma insertIndent_eq:
  "insertIndent m t =
     \<lparr>val = take (nat (selectionStart t)) (val t) @ NL # m @ drop (nat (selectionEnd t)) (val t),
      selectionStart = selectionStart t + 1 + int (length m),
      selectionEnd = selectionStart t + 1 + int (length m)\<rparr>"
  by (simp add: insertIndent_def Let_def substring_0 substringFrom_drop)

lemma lines_before_eq: "lines_before v pos = newlines_before v pos"
  by (simp add: lines_before_def newlines_before_def substring_0 length_split_nl)

lemma map_zip_upt: "map f (zip ls [0..<length ls]) = map (\<lambda>i. f (ls ! i, i)) [0..<length ls]"
  by (rule nth_equalityI) simp_all

lemma indentLines_eq:
  "indentLines tab t =
     \<lparr>val = join_nl (indented tab (newlines_before (val t) (selectionStart t))
              (newlines_before (val t) (selectionEnd t)) (split_nl (val t))),
      selectionStart = selectionStart t + int (length tab),
      selectionEnd = selectionEnd t + int (length tab) *
         (newlines_before (val t) (selectionEnd t) - newlines_before (val t) (selectionStart t) + 1)\<rparr>"
  by (simp add: indentLines_def Let_def lines_before_eq indented_def map_zip_upt)

lemma keyPress_fields: "keyCode (keyPress c t) = c" "target (keyPress c t) = t"
  by (simp_all add: keyPress_def)

lemma editing_eq:
  "editing t = \<lparr>history = \<lparr>stack = [stamp t 0], offset = 0\<rparr>, input = Some t, notified = []\<rparr>"
  by (simp add: editing_def recordCurrentState_def recordChange_False dropRedo_def
      initial_history_def range_of_Record)

lemma editing_input: "input (editing t) = Some t"
  by (simp add: editing_eq)

lemma textAfterKey_applied:
  assumes "handleKeyDown props now e ed = Inr (p, applyEdits now r ed)" "input ed \<noteq> None"
  shows "textAfterKey props now e ed = Some r"
  using assms by (simp add: textAfterKey_def applyEdits_input)

section \<open>Keys: Tab\<close>

lemma tabString_default: "tabString defaultProps = ''  ''"
  by (simp add: tabString_def defaultProps_def eval_nat_numeral)

lemma tab_abcd4:
  "handleKeyDown defaultProps now (keyPress KEYCODE_TAB abcd4) ed =
     Inr (True, applyEdits now \<lparr>val = ''abcd  '', selectionStart = 6, selectionEnd = 6\<rparr> ed)"
proof -
  have "insertTab ''  '' abcd4 = \<lparr>val = ''abcd  '', selectionStart = 6, selectionEnd = 6\<rparr>"
    by (simp add: insertTab_eq abcd4_def)
  moreover have "0 \<le> tabSize defaultProps" by (simp add: defaultProps_def)
  moreover have "selectionStart abcd4 = selectionEnd abcd4" by (simp add: abcd4_def)
  ultimately show ?thesis
    using handleKeyDown_tab [of defaultProps "keyPress KEYCODE_TAB abcd4" now ed]
    by (simp add: tabString_default keyPress_fields)
qed

text \<open>
  Claim C4 as it is stated fails: Tab with the caret at position 4 of \<open>abcd\<close> does not
  leave \<open>ab  cd\<close> in the text area.
\<close>

theorem tab_at_4_counterexample:
  "textAfterKey defaultProps 0 (keyPress KEYCODE_TAB abcd4) (editing abcd4) \<noteq>
     Some \<lparr>val = ''ab  cd'', selectionStart = 6, selectionEnd = 6\<rparr>"
proof -
  have "textAfterKey defaultProps 0 (keyPress KEYCODE_TAB abcd4) (editing abcd4) =
      Some \<lparr>val = ''abcd  '', selectionStart = 6, selectionEnd = 6\<rparr>"
    using tab_abcd4 [of 0 "editing abcd4"]
    by (rule textAfterKey_applied) (simp add: editing_input)
  then show ?thesis by simp
qed

text \<open>
  Claim C4, amended. Tab with a collapsed selection at position 4 of \<open>abcd\<close>, with
  \<open>tabSize = 2\<close> and \<open>insertSpaces = true\<close>, applies the edit with the value
  \<open>abcd\<close> followed by two spaces and the selection (6, 6); a session started on that
  text area holds this afterwards.
\<close>

theorem tab_at_4:
  "handleKeyDown defaultProps now (keyPress KEYCODE_TAB abcd4) ed =
     Inr (True, applyEdits now \<lparr>val = ''abcd  '', selectionStart = 6, selectionEnd = 6\<rparr> ed)
   \<and> textAfterKey defaultProps now (keyPress KEYCODE_TAB abcd4) (editing abcd4) =
       Some \<lparr>val = ''abcd  '', selectionStart = 6, selectionEnd = 6\<rparr>"
proof -
  have "textAfterKey defaultProps now (keyPress KEYCODE_TAB abcd4) (editing abcd4) =
      Some \<lparr>val = ''abcd  '', selectionStart = 6, selectionEnd = 6\<rparr>"
    using tab_abcd4 [of now "editing abcd4"]
    by (rule textAfterKey_applied) (simp add: editing_input)
  then show ?thesis using tab_abcd4 [of now ed] by simp
qed

text \<open>
  Claim C5. For a configuration with \<open>tabSize \<ge> 0\<close> and a collapsed selection, Tab is
  intercepted and applies the edit whose value is the text up to the caret, the tab
  character and the rest of the text, with the collapsed caret moved by the length of
  the tab character. The tab character is one space, or the five spaces of the second
  literal, repeated \<open>tabSize\<close> times: without \<open>insertSpaces\<close> it is \<open>5 * tabSize\<close>
  characters long.
\<close>

theorem tab_collapsed:
  assumes "0 \<le> tabSize props" "keyCode e = KEYCODE_TAB"
    "selectionStart (target e) = selectionEnd (target e)"
  shows "tabCharacter props = Inr (tabString props)
     \<and> length (tabString props) = nat (tabSize props) * (if insertSpaces props then 1 else 5)
     \<and> (\<not> insertSpaces props \<longrightarrow> int (length (tabString props)) = 5 * tabSize props)
     \<and> handleKeyDown props now e ed =
         Inr (True, applyEdits now
           \<lparr>val = take (nat (selectionStart (target e))) (val (target e)) @ tabString props @
                  drop (nat (selectionStart (target e))) (val (target e)),
            selectionStart = selectionStart (target e) + int (length (tabString props)),
            selectionEnd = selectionStart (target e) + int (length (tabString props))\<rparr> ed)
     \<and> (input ed \<noteq> None \<longrightarrow>
          textAfterKey props now e ed =
            Some \<lparr>val = take (nat (selectionStart (target e))) (val (target e)) @
                     tabString props @
                     drop (nat (selectionStart (target e))) (val (target e)),
                  selectionStart = selectionStart (target e) + int (length (tabString props)),
                  selectionEnd = selectionStart (target e) + int (length (tabString props))\<rparr>)"
proof -
  let ?r = "\<lparr>val = take (nat (selectionStart (target e))) (val (target e)) @ tabString props @
                  drop (nat (selectionStart (target e))) (val (target e)),
            selectionStart = selectionStart (target e) + int (length (tabString props)),
            selectionEnd = selectionStart (target e) + int (length (tabString props))\<rparr>"
  have k: "handleKeyDown props now e ed = Inr (True, applyEdits now ?r ed)"
    using handleKeyDown_tab [OF assms(1,2), of now ed] assms(3) by (simp add: insertTab_eq)
  have t: "textAfterKey props now e ed = Some ?r" if "input ed \<noteq> None"
    using k that by (rule textAfterKey_applied)
  have l: "int (length (tabString props)) = 5 * tabSize props" if "\<not> insertSpaces props"
    using that assms(1) by (simp add: length_tabString)
  show ?thesis
    using k t l tabCharacter_tabString [OF assms(1)] length_tabString [of props] by simp
qed

theorem tab_collapsed_witness:
  "0 \<le> tabSize wideTabs \<and> keyCode (keyPress KEYCODE_TAB ab1) = KEYCODE_TAB
   \<and> selectionStart (target (keyPress KEYCODE_TAB ab1)) =
       selectionEnd (target (keyPress KEYCODE_TAB ab1))
   \<and> input (editing ab1) \<noteq> None
   \<and> tabCharacter wideTabs = Inr ''     ''
   \<and> textAfterKey wideTabs 7 (keyPress KEYCODE_TAB ab1) (editing ab1) =
       Some \<lparr>val = ''a     b'', selectionStart = 6, selectionEnd = 6\<rparr>"
proof -
  have h: "0 \<le> tabSize wideTabs" "keyCode (keyPress KEYCODE_TAB ab1) = KEYCODE_TAB"
    "selectionStart (target (keyPress KEYCODE_TAB ab1)) =
       selectionEnd (target (keyPress KEYCODE_TAB ab1))"
    by (simp_all add: wideTabs_def keyPress_def ab1_def)
  have i: "input (editing ab1) \<noteq> None" by (simp add: editing_input)
  have s: "tabString wideTabs = ''     ''" by (simp add: tabString_def wideTabs_def)
  show ?thesis
    using tab_collapsed [OF h, of 7 "editing ab1"] h i
    by (simp add: s keyPress_def ab1_def)
qed

lemma NL_not_space: "NL \<notin> set (tabString props)"
  by (simp add: tabString_spaces NL_def)

lemma length_indented: "length (indented tab a b ls) = length ls"
  by (simp add: indented_def)

lemma nth_indented:
  "i < length ls \<Longrightarrow>
   indented tab a b ls ! i = (if a \<le> int i \<and> int i \<le> b then tab @ ls ! i else ls ! i)"
  by (simp add: indented_def)

lemma split_join_indented:
  assumes "NL \<notin> set tab"
  shows "split_nl (join_nl (indented tab a b (split_nl v))) = indented tab a b (split_nl v)"
proof (rule split_join_nl)
  show "indented tab a b (split_nl v) \<noteq> []"
    using split_nl_nonempty [of v] length_indented [of tab a b "split_nl v"] by auto
  show "\<forall>l\<in>set (indented tab a b (split_nl v)). NL \<notin> set l"
  proof
    fix l assume "l \<in> set (indented tab a b (split_nl v))"
    then obtain i where i: "i < length (split_nl v)" "l = indented tab a b (split_nl v) ! i"
      by (auto simp: in_set_conv_nth length_indented)
    have "NL \<notin> set (split_nl v ! i)" using i(1) set_split_nl nth_mem by blast
    then show "NL \<notin> set l" using i assms by (simp add: nth_indented)
  qed
qed

text \<open>
  Claim C6. For a configuration with \<open>tabSize \<ge> 0\<close> and a selection that is not
  collapsed, Tab is intercepted and applies the edit whose lines are the lines of the
  text, with the tab character put before each line whose index lies between the number
  of line feeds before \<open>selectionStart\<close> and the number before \<open>selectionEnd\<close>. The new
  \<open>selectionStart\<close> is the old one plus the length of the tab character, the new
  \<open>selectionEnd\<close> the old one plus that length times the number of these lines. A
  mounted text area holds this value and this selection after the key.
\<close>

theorem tab_selection:
  fixes props :: Props and e :: KeyEvent
  defines "tab \<equiv> tabString props"
    and "v \<equiv> val (target e)"
    and "a \<equiv> newlines_before (val (target e)) (selectionStart (target e))"
    and "b \<equiv> newlines_before (val (target e)) (selectionEnd (target e))"
  assumes "0 \<le> tabSize props" "keyCode e = KEYCODE_TAB"
    "selectionStart (target e) \<noteq> selectionEnd (target e)"
  shows "handleKeyDown props now e ed =
         Inr (True, applyEdits now
           \<lparr>val = join_nl (indented tab a b (split_nl v)),
            selectionStart = selectionStart (target e) + int (length tab),
            selectionEnd = selectionEnd (target e) + int (length tab) * (b - a + 1)\<rparr> ed)
     \<and> (input ed \<noteq> None \<longrightarrow>
          textAfterKey props now e ed =
            Some \<lparr>val = join_nl (indented tab a b (split_nl v)),
                  selectionStart = selectionStart (target e) + int (length tab),
                  selectionEnd = selectionEnd (target e) + int (length tab) * (b - a + 1)\<rparr>)
     \<and> split_nl (join_nl (indented tab a b (split_nl v))) = indented tab a b (split_nl v)
     \<and> length (indented tab a b (split_nl v)) = length (split_nl v)
     \<and> (\<forall>i < length (split_nl v).
          indented tab a b (split_nl v) ! i =
            (if a \<le> int i \<and> int i \<le> b then tab @ split_nl v ! i else split_nl v ! i))"
proof -
  let ?r = "\<lparr>val = join_nl (indented tab a b (split_nl v)),
            selectionStart = selectionStart (target e) + int (length tab),
            selectionEnd = selectionEnd (target e) + int (length tab) * (b - a + 1)\<rparr>"
  have "handleKeyDown props now e ed =
      Inr (True, applyEdits now (indentLines (tabString props) (target e)) ed)"
    using handleKeyDown_tab [OF assms(5,6), of now ed] assms(7) by simp
  then have k: "handleKeyDown props now e ed = Inr (True, applyEdits now ?r ed)"
    unfolding tab_def v_def a_def b_def by (simp add: indentLines_eq)
  have t: "textAfterKey props now e ed = Some ?r" if "input ed \<noteq> None"
    using k that by (rule textAfterKey_applied)
  have l: "split_nl (join_nl (indented tab a b (split_nl v))) = indented tab a b (split_nl v)"
    unfolding tab_def by (simp add: split_join_indented NL_not_space)
  show ?thesis
    using k t l by (simp add: length_indented nth_indented)
qed

theorem tab_selection_witness:
  "0 \<le> tabSize defaultProps \<and> keyCode (keyPress KEYCODE_TAB a_b) = KEYCODE_TAB
   \<and> selectionStart (target (keyPress KEYCODE_TAB a_b)) \<noteq>
       selectionEnd (target (keyPress KEYCODE_TAB a_b))
   \<and> input (editing a_b) \<noteq> None
   \<and> handleKeyDown defaultProps 7 (keyPress KEYCODE_TAB a_b) (editing a_b) =
       Inr (True, applyEdits 7
         \<lparr>val = ''  a'' @ NL # ''  b'', selectionStart = 2, selectionEnd = 7\<rparr> (editing a_b))
   \<and> textAfterKey defaultProps 7 (keyPress KEYCODE_TAB a_b) (editing a_b) =
       Some \<lparr>val = ''  a'' @ NL # ''  b'', selectionStart = 2, selectionEnd = 7\<rparr>"
proof -
  have h: "0 \<le> tabSize defaultProps" "keyCode (keyPress KEYCODE_TAB a_b) = KEYCODE_TAB"
    "selectionStart (target (keyPress KEYCODE_TAB a_b)) \<noteq>
       selectionEnd (target (keyPress KEYCODE_TAB a_b))"
    by (simp_all add: defaultProps_def keyPress_fields a_b_def)
  have m: "input (editing a_b) \<noteq> None" by (simp add: editing_input)
  have n: "newlines_before (val a_b) 0 = 0" "newlines_before (val a_b) 3 = 1"
    by (simp_all add: newlines_before_def a_b_def NL_def)
  have l: "split_nl (val a_b) = [''a'', ''b'']"
    by (simp add: a_b_def NL_def)
  have i: "join_nl (indented ''  '' 0 1 [''a'', ''b'']) = ''  a'' @ NL # ''  b''"
    by (simp add: indented_def upt_rec)
  have f: "selectionStart a_b = 0" "selectionEnd a_b = 3" by (simp_all add: a_b_def)
  show ?thesis
    using tab_selection [OF h, of 7 "editing a_b"] h m
    by (simp add: keyPress_fields tabString_default n l i f)
qed

section \<open>Keys: Backspace\<close>

lemma suffix_take_split:
  assumes "suffix tab (take n v)" "n \<le> length v"
  shows "v = take (n - length tab) v @ tab @ drop n v \<and> length tab \<le> n"
proof -
  obtain pre where pre: "take n v = pre @ tab" using assms(1) by (auto simp: suffix_def)
  then have "length pre + length tab = n" using assms(2)
    by (metis length_append length_take min.absorb2)
  then have len: "length pre = n - length tab" "length tab \<le> n" by simp_all
  have "pre = take (length pre) (take n v)" using pre by simp
  then have "pre = take (n - length tab) v" using len by (simp add: min_def)
  then have "take n v = take (n - length tab) v @ tab" using pre by simp
  then have "take n v @ drop n v = (take (n - length tab) v @ tab) @ drop n v" by simp
  then show ?thesis using len by simp
qed

text \<open>
  Claim C7. For a configuration with \<open>tabSize \<ge> 0\<close>, Backspace is intercepted exactly
  when the selection is collapsed and the text before the caret ends with the tab
  character. Then the applied edit is the text without the characters of the tab
  character before the caret (as many as the tab character has), with the collapsed
  caret moved back by that length, and a mounted text area holds this value and this
  selection after the key; for a caret inside the text the characters removed are the
  tab character itself. Otherwise the key is left to the text area: the editor and its
  text area are unchanged.
\<close>

theorem backspace_dedent:
  fixes props :: Props and e :: KeyEvent
  defines "tab \<equiv> tabString props"
    and "v \<equiv> val (target e)"
    and "c \<equiv> selectionStart (target e)"
  assumes "0 \<le> tabSize props" "keyCode e = KEYCODE_BACKSPACE"
  shows "handleKeyDown props now e ed =
         (if c = selectionEnd (target e) \<and> suffix tab (take (nat c) v)
          then Inr (True, applyEdits now
                 \<lparr>val = take (nat c - length tab) v @ drop (nat c) v,
                  selectionStart = c - int (length tab),
                  selectionEnd = c - int (length tab)\<rparr> ed)
          else Inr (False, ed))
     \<and> (input ed \<noteq> None \<longrightarrow>
          textAfterKey props now e ed =
            (if c = selectionEnd (target e) \<and> suffix tab (take (nat c) v)
             then Some \<lparr>val = take (nat c - length tab) v @ drop (nat c) v,
                        selectionStart = c - int (length tab),
                        selectionEnd = c - int (length tab)\<rparr>
             else input ed))
     \<and> (suffix tab (take (nat c) v) \<and> 0 \<le> c \<and> c \<le> int (length v) \<longrightarrow>
          v = take (nat c - length tab) v @ tab @ drop (nat c) v \<and> int (length tab) \<le> c)"
proof -
  let ?r = "\<lparr>val = take (nat c - length tab) v @ drop (nat c) v,
                  selectionStart = c - int (length tab),
                  selectionEnd = c - int (length tab)\<rparr>"
  let ?applies = "c = selectionEnd (target e) \<and> suffix tab (take (nat c) v)"
  have k: "handleKeyDown props now e ed =
         (if ?applies then Inr (True, applyEdits now ?r ed) else Inr (False, ed))"
    unfolding tab_def v_def c_def
    using handleKeyDown_backspace [OF assms(4,5), of now ed]
    by (auto simp: removeTab_eq)
  have t: "textAfterKey props now e ed = (if ?applies then Some ?r else input ed)"
    if "input ed \<noteq> None"
    by (auto simp: textAfterKey_def k applyEdits_input that)
  have d: "v = take (nat c - length tab) v @ tab @ drop (nat c) v \<and> int (length tab) \<le> c"
    if "suffix tab (take (nat c) v)" "0 \<le> c" "c \<le> int (length v)"
  proof -
    have "nat c \<le> length v" using that(3) by simp
    then have "v = take (nat c - length tab) v @ tab @ drop (nat c) v \<and> length tab \<le> nat c"
      using suffix_take_split [OF that(1)] by simp
    then show ?thesis using that(2) by arith
  qed
  show ?thesis using k t d by simp
qed

theorem backspace_dedent_witness:
  "0 \<le> tabSize defaultProps
   \<and> keyCode (keyPress KEYCODE_BACKSPACE a__b) = KEYCODE_BACKSPACE
   \<and> input (editing a__b) \<noteq> None
   \<and> handleKeyDown defaultProps 7 (keyPress KEYCODE_BACKSPACE a__b) (editing a__b) =
       Inr (True, applyEdits 7 \<lparr>val = ''ab'', selectionStart = 1, selectionEnd = 1\<rparr>
         (editing a__b))
   \<and> textAfterKey defaultProps 7 (keyPress KEYCODE_BACKSPACE a__b) (editing a__b) =
       Some \<lparr>val = ''ab'', selectionStart = 1, selectionEnd = 1\<rparr>
   \<and> handleKeyDown defaultProps 7 (keyPress KEYCODE_BACKSPACE ab1) (editing ab1) =
       Inr (False, editing ab1)
   \<and> textAfterKey defaultProps 7 (keyPress KEYCODE_BACKSPACE ab1) (editing ab1) = Some ab1"
proof -
  have h: "0 \<le> tabSize defaultProps" by (simp add: defaultProps_def)
  have k: "keyCode (keyPress KEYCODE_BACKSPACE t) = KEYCODE_BACKSPACE" for t
    by (simp add: keyPress_fields)
  have m: "input (editing t) \<noteq> None" for t by (simp add: editing_input)
  have s: "suffix ''  '' (take (nat 3) ''a  b'')" "\<not> suffix ''  '' (take (nat 1) ''ab'')"
    by (simp_all add: endsWith_suffix [symmetric] endsWith_def)
  have f: "val a__b = ''a  b''" "selectionStart a__b = 3" "selectionEnd a__b = 3"
    "val ab1 = ''ab''" "selectionStart ab1 = 1" "selectionEnd ab1 = 1"
    by (simp_all add: a__b_def ab1_def)
  have "handleKeyDown defaultProps 7 (keyPress KEYCODE_BACKSPACE a__b) (editing a__b) =
       Inr (True, applyEdits 7 \<lparr>val = ''ab'', selectionStart = 1, selectionEnd = 1\<rparr>
         (editing a__b))
     \<and> textAfterKey defaultProps 7 (keyPress KEYCODE_BACKSPACE a__b) (editing a__b) =
       Some \<lparr>val = ''ab'', selectionStart = 1, selectionEnd = 1\<rparr>"
    using backspace_dedent [OF h k [of a__b], of 7 "editing a__b"] s m [of a__b]
    by (simp add: keyPress_fields tabString_default f)
  moreover have "handleKeyDown defaultProps 7 (keyPress KEYCODE_BACKSPACE ab1) (editing ab1) =
       Inr (False, editing ab1)
     \<and> textAfterKey defaultProps 7 (keyPress KEYCODE_BACKSPACE ab1) (editing ab1) = Some ab1"
    using backspace_dedent [OF h k [of ab1], of 7 "editing ab1"] s m [of ab1]
    by (simp add: keyPress_fields tabString_default f editing_input)
  ultimately show ?thesis using h k m by simp
qed

section \<open>Keys: Enter\<close>

text \<open>
  Claim C8. For a configuration with \<open>tabSize \<ge> 0\<close>, Enter is intercepted exactly when
  the selection is collapsed and the line before the caret (the text after the last line
  feed before it) starts with white space. Then the applied edit has a line feed and that
  run of white space inserted at the caret, and the collapsed caret behind them, and a
  mounted text area holds this value and this selection after the key. Otherwise the key
  is left to the text area: the editor and its text area are unchanged.
\<close>

theorem enter_indents:
  fixes props :: Props and e :: KeyEvent
  defines "v \<equiv> val (target e)"
    and "c \<equiv> selectionStart (target e)"
    and "run \<equiv> takeWhile space (caret_line (target e))"
  assumes "0 \<le> tabSize props" "keyCode e = KEYCODE_ENTER"
  shows "handleKeyDown props now e ed =
         (if c = selectionEnd (target e) \<and> run \<noteq> []
          then Inr (True, applyEdits now
                 \<lparr>val = take (nat c) v @ (NL # run) @ drop (nat c) v,
                  selectionStart = c + int (length (NL # run)),
                  selectionEnd = c + int (length (NL # run))\<rparr> ed)
          else Inr (False, ed))
     \<and> (input ed \<noteq> None \<longrightarrow>
          textAfterKey props now e ed =
            (if c = selectionEnd (target e) \<and> run \<noteq> []
             then Some \<lparr>val = take (nat c) v @ (NL # run) @ drop (nat c) v,
                        selectionStart = c + int (length (NL # run)),
                        selectionEnd = c + int (length (NL # run))\<rparr>
             else input ed))"
proof -
  let ?r = "\<lparr>val = take (nat c) v @ (NL # run) @ drop (nat c) v,
                  selectionStart = c + int (length (NL # run)),
                  selectionEnd = c + int (length (NL # run))\<rparr>"
  let ?applies = "c = selectionEnd (target e) \<and> run \<noteq> []"
  have k: "handleKeyDown props now e ed =
         (if ?applies then Inr (True, applyEdits now ?r ed) else Inr (False, ed))"
    unfolding v_def c_def run_def
    using handleKeyDown_enter [OF assms(4,5), of now ed]
    by (simp add: insertIndent_eq add.assoc)
  have t: "textAfterKey props now e ed = (if ?applies then Some ?r else input ed)"
    if "input ed \<noteq> None"
    by (auto simp: textAfterKey_def k applyEdits_input that)
  show ?thesis using k t by simp
qed

theorem enter_indents_witness:
  "0 \<le> tabSize defaultProps \<and> keyCode (keyPress KEYCODE_ENTER foo5) = KEYCODE_ENTER
   \<and> input (editing foo5) \<noteq> None
   \<and> handleKeyDown defaultProps 7 (keyPress KEYCODE_ENTER foo5) (editing foo5) =
       Inr (True, applyEdits 7
         \<lparr>val = ''  foo'' @ NL # ''  '', selectionStart = 8, selectionEnd = 8\<rparr> (editing foo5))
   \<and> textAfterKey defaultProps 7 (keyPress KEYCODE_ENTER foo5) (editing foo5) =
       Some \<lparr>val = ''  foo'' @ NL # ''  '', selectionStart = 8, selectionEnd = 8\<rparr>
   \<and> handleKeyDown defaultProps 7 (keyPress KEYCODE_ENTER ab1) (editing ab1) =
       Inr (False, editing ab1)
   \<and> textAfterKey defaultProps 7 (keyPress KEYCODE_ENTER ab1) (editing ab1) = Some ab1"
proof -
  have h: "0 \<le> tabSize defaultProps" by (simp add: defaultProps_def)
  have k: "keyCode (keyPress KEYCODE_ENTER t) = KEYCODE_ENTER" for t
    by (simp add: keyPress_fields)
  have m: "input (editing t) \<noteq> None" for t by (simp add: editing_input)
  have r: "takeWhile space (caret_line foo5) = ''  ''" "takeWhile space (caret_line ab1) = []"
    by (simp_all add: caret_line_def foo5_def ab1_def space_def NL_def)
  have f: "val foo5 = ''  foo''" "selectionStart foo5 = 5" "selectionEnd foo5 = 5"
    "selectionStart ab1 = 1" "selectionEnd ab1 = 1"
    by (simp_all add: foo5_def ab1_def)
  have "handleKeyDown defaultProps 7 (keyPress KEYCODE_ENTER foo5) (editing foo5) =
       Inr (True, applyEdits 7
         \<lparr>val = ''  foo'' @ NL # ''  '', selectionStart = 8, selectionEnd = 8\<rparr> (editing foo5))
     \<and> textAfterKey defaultProps 7 (keyPress KEYCODE_ENTER foo5) (editing foo5) =
       Some \<lparr>val = ''  foo'' @ NL # ''  '', selectionStart = 8, selectionEnd = 8\<rparr>"
    using enter_indents [OF h k [of foo5], of 7 "editing foo5"] m [of foo5]
    by (simp add: keyPress_fields r f)
  moreover have "handleKeyDown defaultProps 7 (keyPress KEYCODE_ENTER ab1) (editing ab1) =
       Inr (False, editing ab1)
     \<and> textAfterKey defaultProps 7 (keyPress KEYCODE_ENTER ab1) (editing ab1) = Some ab1"
    using enter_indents [OF h k [of ab1], of 7 "editing ab1"] m [of ab1]
    by (simp add: keyPress_fields r f editing_input)
  ultimately show ?thesis using h k m by simp
qed

section \<open>Keys: Backspace with an empty tab character\<close>

lemma applyEdits_unfold:
  "input ed = Some i \<Longrightarrow>
   applyEdits now r ed =
     ed\<lparr>history := recordChange now r False (saveSelection (history ed) (Some i)),
        input := Some r, notified := notified ed @ [val r]\<rparr>"
  by (simp add: applyEdits_def updateInput_def range_of_Record)

text \<open>
  Claim C10. With \<open>tabSize = 0\<close> the tab character is the empty string, so Backspace
  with a collapsed selection is always intercepted. The edit it applies is the text area
  as it is: the text area keeps its value and its selection, a new record of it is
  pushed on the history (after the current record took the live selection and the redo
  records were dropped), and \<open>onValueChange\<close> is told the unchanged value.
\<close>

theorem backspace_tabSize_zero:
  assumes "tabSize props = 0" "keyCode e = KEYCODE_BACKSPACE"
    "selectionStart (target e) = selectionEnd (target e)" "input ed = Some (target e)"
  shows "tabCharacter props = Inr []
     \<and> handleKeyDown props now e ed =
         Inr (True,
           ed\<lparr>history :=
                \<lparr>stack = stack (dropRedo (saveSelection (history ed) (Some (target e)))) @
                           [stamp (target e) now],
                 offset = offset (dropRedo (saveSelection (history ed) (Some (target e)))) + 1\<rparr>,
              notified := notified ed @ [val (target e)]\<rparr>)
     \<and> textAfterKey props now e ed = input ed"
proof -
  have t: "tabString props = []" using assms(1) by (simp add: tabString_def)
  have p: "0 \<le> tabSize props" using assms(1) by simp
  have same: "removeTab [] (target e) = target e"
    using assms(3) by (simp add: removeTab_eq)
  have k: "handleKeyDown props now e ed = Inr (True, applyEdits now (target e) ed)"
    using handleKeyDown_backspace [OF p assms(2), of now ed] assms(3) by (simp add: t same)
  have a: "applyEdits now (target e) ed =
           ed\<lparr>history :=
                \<lparr>stack = stack (dropRedo (saveSelection (history ed) (Some (target e)))) @
                           [stamp (target e) now],
                 offset = offset (dropRedo (saveSelection (history ed) (Some (target e)))) + 1\<rparr>,
              notified := notified ed @ [val (target e)]\<rparr>"
    using assms(4) by (simp add: applyEdits_unfold recordChange_False)
  have "textAfterKey props now e ed = input ed"
    using k assms(4) by (simp add: textAfterKey_def a)
  then show ?thesis using k a t tabCharacter_tabString [OF p] by simp
qed

theorem backspace_tabSize_zero_witness:
  "tabSize noTabs = 0 \<and> keyCode (keyPress KEYCODE_BACKSPACE ab1) = KEYCODE_BACKSPACE
   \<and> selectionStart (target (keyPress KEYCODE_BACKSPACE ab1)) =
       selectionEnd (target (keyPress KEYCODE_BACKSPACE ab1))
   \<and> input (editing ab1) = Some (target (keyPress KEYCODE_BACKSPACE ab1))
   \<and> handleKeyDown noTabs 7 (keyPress KEYCODE_BACKSPACE ab1) (editing ab1) =
       Inr (True,
         \<lparr>history = \<lparr>stack = [stamp ab1 0, stamp ab1 7], offset = 1\<rparr>,
          input = Some ab1, notified = [''ab'']\<rparr>)"
proof -
  have h: "tabSize noTabs = 0" "keyCode (keyPress KEYCODE_BACKSPACE ab1) = KEYCODE_BACKSPACE"
    "selectionStart (target (keyPress KEYCODE_BACKSPACE ab1)) =
       selectionEnd (target (keyPress KEYCODE_BACKSPACE ab1))"
    "input (editing ab1) = Some (target (keyPress KEYCODE_BACKSPACE ab1))"
    by (simp_all add: noTabs_def keyPress_fields editing_input ab1_def)
  have s: "saveSelection \<lparr>stack = [stamp ab1 0], offset = 0\<rparr> (Some ab1) =
      \<lparr>stack = [stamp ab1 0], offset = 0\<rparr>"
    by (simp add: saveSelection_def nth_opt_def stamp_def)
  have d: "dropRedo \<lparr>stack = [stamp ab1 0], offset = 0\<rparr> = \<lparr>stack = [stamp ab1 0], offset = 0\<rparr>"
    by (simp add: dropRedo_def slice_def HISTORY_LIMIT_def)
  have v: "val ab1 = ''ab''" by (simp add: ab1_def)
  show ?thesis
    using backspace_tabSize_zero [OF h, of 7] h
    by (simp add: keyPress_fields editing_eq s d v)
qed

end
